theory Spec2Isabelle
  imports Complex_Main "HOL-Library.Char_ord" "HOL-Library.List_Lexorder"
begin

section \<open>Values and exceptions of the Python program\<close>

text \<open>
  The module \<^verbatim>\<open>ai_insight.py\<close> keeps a catalogue of web sites read from a JSON
  document. A Python \<^verbatim>\<open>str\<close> is a \<^typ>\<open>string\<close>, each character standing for one code
  point; the order on strings is the lexicographic order on code points, which is how
  Python compares them. A \<^verbatim>\<open>dict\<close> is an association list in insertion order whose keys
  are pairwise different.
\<close>

datatype json =
    JNull
  | JBool bool
  | JInt int
  | JFloat real
  | JStr string
  | JList "json list"
  | JDict "(string \<times> json) list"

text \<open>Truth value testing, as \<^verbatim>\<open>if x\<close> does it for the values \<^verbatim>\<open>json.load\<close> returns.\<close>

fun truthy :: "json \<Rightarrow> bool" where
  "truthy JNull = False"
| "truthy (JBool b) = b"
| "truthy (JInt i) = (i \<noteq> 0)"
| "truthy (JFloat r) = (r \<noteq> 0)"
| "truthy (JStr s) = (s \<noteq> [])"
| "truthy (JList xs) = (xs \<noteq> [])"
| "truthy (JDict d) = (d \<noteq> [])"

text \<open>
  The exceptions the module raises or lets through. \<open>KeyError\<close> carries the missing key,
  \<open>ValueError\<close> and \<open>FileNotFoundError\<close> their message.
\<close>

datatype exn =
    KeyError string
  | TypeError
  | AttributeError
  | ValueError string
  | FileNotFoundError string
  | OSError string

text \<open>\<^verbatim>\<open>d[k] = v\<close> on a dict: an existing key keeps its place, a new key goes last.\<close>

fun setitem :: "('k \<times> 'v) list \<Rightarrow> 'k \<Rightarrow> 'v \<Rightarrow> ('k \<times> 'v) list" where
  "setitem [] k v = [(k, v)]"
| "setitem ((k', v') # d) k v =
     (if k' = k then (k, v) # d else (k', v') # setitem d k v)"

text \<open>\<^verbatim>\<open>s.endswith(t)\<close> and \<^verbatim>\<open>s.startswith(t)\<close>.\<close>

definition endswith :: "string \<Rightarrow> string \<Rightarrow> bool" where
  "endswith s t = (length t \<le> length s \<and> drop (length s - length t) s = t)"

definition startswith :: "string \<Rightarrow> string \<Rightarrow> bool" where
  "startswith s t = (take (length t) s = t)"

text \<open>\<^verbatim>\<open>repr\<close> of a string that holds no quote, backslash or control character.\<close>

definition repr :: "string \<Rightarrow> string" where
  "repr s = [CHR 0x27] @ s @ [CHR 0x27]"


section \<open>SiteInformation\<close>

text \<open>
  The fields are typed as the constructor's docstring gives them: \<open>name\<close> is a string
  and \<open>information\<close> a dictionary. The values read from the data file are whatever JSON
  value the file holds there.
\<close>

record SiteInformation =
  name :: string
  url_home :: json
  url_username_format :: json
  username_claimed :: json
  username_unclaimed :: string
  information :: "(string \<times> json) list"
  is_nsfw :: json

text \<open>
  \<^verbatim>\<open>def __init__(self, name, url_home, url_username_format, username_claimed,
               information, is_nsfw, username_unclaimed=secrets.token_urlsafe(10))\<close>

  Python evaluates the default of a parameter once, when the \<^verbatim>\<open>def\<close> statement runs.
  \<open>default_token\<close> is the string that this one call of \<^verbatim>\<open>secrets.token_urlsafe(10)\<close>
  returned; the last argument is \<open>None\<close> when the caller leaves the parameter out.
\<close>

definition SiteInformation_init ::
  "string \<Rightarrow> string \<Rightarrow> json \<Rightarrow> json \<Rightarrow> json \<Rightarrow> (string \<times> json) list \<Rightarrow> json \<Rightarrow>
   string option \<Rightarrow> SiteInformation" where
  "SiteInformation_init default_token name' url_home' url_username_format' username_claimed'
     information' is_nsfw' username_unclaimed' =
     \<lparr> name = name',
       url_home = url_home',
       url_username_format = url_username_format',
       username_claimed = username_claimed',
       username_unclaimed =
         (case username_unclaimed' of None \<Rightarrow> default_token | Some u \<Rightarrow> u),
       information = information',
       is_nsfw = is_nsfw' \<rparr>"


section \<open>SitesInformation\<close>

text \<open>
  The state the methods work on: the attribute \<^verbatim>\<open>self.sites\<close>, the strings handed to
  \<^verbatim>\<open>print\<close> (one per call), and the file and network accesses made so far.
\<close>

datatype io_event = HttpGet string | OpenFile string

record state =
  sites :: "(string \<times> SiteInformation) list"
  stdout :: "string list"
  io_log :: "io_event list"

definition empty_state :: state where
  "empty_state = \<lparr> sites = [], stdout = [], io_log = [] \<rparr>"

subsection \<open>\<^verbatim>\<open>_initialize_sites\<close>\<close>

text \<open>
  The arguments of the constructor call are evaluated from left to right before the call:
  \<^verbatim>\<open>site_data[site_name]["urlMain"]\<close>, \<^verbatim>\<open>["url"]\<close>, \<^verbatim>\<open>["username_claimed"]\<close>, then
  \<^verbatim>\<open>.get("isNSFW", False)\<close>. Subscripting a dict with a missing key raises \<open>KeyError\<close>;
  subscripting any other JSON value (null, a boolean, a number, a string or a list) with
  a string raises \<open>TypeError\<close>. The dict itself becomes the record's \<open>information\<close>.
\<close>

fun new_site :: "string \<Rightarrow> string \<Rightarrow> json \<Rightarrow> exn + SiteInformation" where
  "new_site default_token site_name (JDict d) =
     (case map_of d ''urlMain'' of
        None \<Rightarrow> Inl (KeyError ''urlMain'')
      | Some url_main \<Rightarrow>
     (case map_of d ''url'' of
        None \<Rightarrow> Inl (KeyError ''url'')
      | Some url \<Rightarrow>
     (case map_of d ''username_claimed'' of
        None \<Rightarrow> Inl (KeyError ''username_claimed'')
      | Some claimed \<Rightarrow>
          Inr (SiteInformation_init default_token site_name url_main url claimed d
                 (case map_of d ''isNSFW'' of None \<Rightarrow> JBool False | Some v \<Rightarrow> v)
                 None))))"
| "new_site default_token site_name _ = Inl TypeError"

definition missing_attribute_message :: "string \<Rightarrow> string" where
  "missing_attribute_message k =
     ''Problem parsing json contents: Missing attribute '' @ repr k @ ''.''"

definition skip_message :: "string \<Rightarrow> string" where
  "skip_message site_name =
     ''Encountered TypeError parsing json contents for target ''
       @ [CHR 0x27] @ site_name @ [CHR 0x27, CHR 0x0A] @ ''Skipping target.'' @ [CHR 0x0A]"

text \<open>
  The loop \<^verbatim>\<open>for site_name in site_data\<close> visits the keys in insertion order, and
  \<^verbatim>\<open>site_data[site_name]\<close> is the value stored with the key visited. The result is the
  exception that left the method, if any, and the state at that moment.
\<close>

fun initialize_sites ::
  "string \<Rightarrow> (string \<times> json) list \<Rightarrow> state \<Rightarrow> exn option \<times> state" where
  "initialize_sites default_token [] st = (None, st)"
| "initialize_sites default_token ((site_name, entry) # rest) st =
     (case new_site default_token site_name entry of
        Inr site \<Rightarrow>
          initialize_sites default_token rest
            (st\<lparr>sites := setitem (sites st) site_name site\<rparr>)
      | Inl (KeyError k) \<Rightarrow> (Some (ValueError (missing_attribute_message k)), st)
      | Inl TypeError \<Rightarrow>
          initialize_sites default_token rest
            (st\<lparr>stdout := stdout st @ [skip_message site_name]\<rparr>)
      | Inl e \<Rightarrow> (Some e, st))"

subsection \<open>\<^verbatim>\<open>__init__\<close>\<close>

text \<open>
  What the world answers to the two ways of reading the data file. For a URL, the
  \<^verbatim>\<open>try\<close> block (\<^verbatim>\<open>requests.get\<close>, \<^verbatim>\<open>raise_for_status\<close>, \<^verbatim>\<open>response.json\<close>) raises a
  \<^verbatim>\<open>RequestException\<close>, raises a \<^verbatim>\<open>ValueError\<close>, or yields the parsed document. For a
  path, \<^verbatim>\<open>open\<close> and \<^verbatim>\<open>json.load\<close> raise \<^verbatim>\<open>FileNotFoundError\<close>, a \<^verbatim>\<open>ValueError\<close>, another
  error that no handler catches, or yield the parsed document.
\<close>

datatype fetch_result = RequestException string | FetchValueError string | Fetched json

datatype open_result = FileNotFound | LoadValueError string | OpenOSError string | Loaded json

record env =
  http_get :: "string \<Rightarrow> fetch_result"
  open_json :: "string \<Rightarrow> open_result"

definition default_data_file_path :: string where
  "default_data_file_path =
     ''https://raw.githubusercontent.com/sherlock-project/sherlock/master/sherlock_project/resources/data.json''"

definition bad_extension_message :: "string \<Rightarrow> string" where
  "bad_extension_message p =
     ''Incorrect JSON file extension for data file '' @ [CHR 0x27] @ p @ [CHR 0x27] @ ''.''"

definition url_access_message :: "string \<Rightarrow> string \<Rightarrow> string" where
  "url_access_message p err =
     ''Problem while attempting to access data file URL '' @ [CHR 0x27] @ p @ [CHR 0x27]
       @ '': '' @ err"

definition file_access_message :: "string \<Rightarrow> string" where
  "file_access_message p =
     ''Problem while attempting to access data file '' @ [CHR 0x27] @ p @ [CHR 0x27] @ ''.''"

definition parse_message :: "string \<Rightarrow> string \<Rightarrow> string" where
  "parse_message p err =
     ''Problem parsing json contents at '' @ [CHR 0x27] @ p @ [CHR 0x27] @ '': '' @ err
       @ ''.''"

text \<open>
  \<^verbatim>\<open>site_data.pop('$schema', None)\<close>: on a dict the key goes if it is there; a list's
  \<^verbatim>\<open>pop\<close> takes at most one argument (\<open>TypeError\<close>); the other JSON values have no
  \<^verbatim>\<open>pop\<close> (\<open>AttributeError\<close>).
\<close>

fun pop_schema :: "json \<Rightarrow> exn + (string \<times> json) list" where
  "pop_schema (JDict d) = Inr (filter (\<lambda>kv. fst kv \<noteq> ''$schema'') d)"
| "pop_schema (JList xs) = Inl TypeError"
| "pop_schema _ = Inl AttributeError"

text \<open>
  The two \<^verbatim>\<open>try\<close> blocks of \<^verbatim>\<open>__init__\<close>: the access is logged, and the handlers turn the
  outcome into the exception raised or the document read.
\<close>

definition load_url :: "env \<Rightarrow> string \<Rightarrow> state \<Rightarrow> (exn + json) \<times> state" where
  "load_url world p st =
     (case http_get world p of
        RequestException err \<Rightarrow> Inl (FileNotFoundError (url_access_message p err))
      | FetchValueError err \<Rightarrow> Inl (ValueError (parse_message p err))
      | Fetched site_data \<Rightarrow> Inr site_data,
      st\<lparr>io_log := io_log st @ [HttpGet p]\<rparr>)"

definition load_file :: "env \<Rightarrow> string \<Rightarrow> state \<Rightarrow> (exn + json) \<times> state" where
  "load_file world p st =
     (case open_json world p of
        FileNotFound \<Rightarrow> Inl (FileNotFoundError (file_access_message p))
      | LoadValueError err \<Rightarrow> Inl (ValueError (parse_message p err))
      | OpenOSError err \<Rightarrow> Inl (OSError err)
      | Loaded site_data \<Rightarrow> Inr site_data,
      st\<lparr>io_log := io_log st @ [OpenFile p]\<rparr>)"

text \<open>
  \<open>lower\<close> is \<^verbatim>\<open>str.lower\<close>, a function of the Python runtime that the model takes as
  it is given. \<^verbatim>\<open>if not data_file_path\<close> holds for \<^verbatim>\<open>None\<close> and for the empty string.
\<close>

definition SitesInformation_init ::
  "(string \<Rightarrow> string) \<Rightarrow> env \<Rightarrow> string \<Rightarrow> string option \<Rightarrow> exn option \<times> state" where
  "SitesInformation_init lower world default_token data_file_path =
     (let p = (case data_file_path of
                 None \<Rightarrow> default_data_file_path
               | Some q \<Rightarrow> if q = [] then default_data_file_path else q)
      in if \<not> endswith (lower p) ''.json''
         then (Some (FileNotFoundError (bad_extension_message p)), empty_state)
         else
           (case (if startswith (lower p) ''http''
                  then load_url world p empty_state
                  else load_file world p empty_state) of
              (Inl e, st) \<Rightarrow> (Some e, st)
            | (Inr site_data, st) \<Rightarrow>
                (case pop_schema site_data of
                   Inl e \<Rightarrow> (Some e, st)
                 | Inr d \<Rightarrow> initialize_sites default_token d st)))"

subsection \<open>\<^verbatim>\<open>remove_nsfw_sites\<close>\<close>

text \<open>
  \<open>casefold\<close> is \<^verbatim>\<open>str.casefold\<close>, taken as it is given. The loop runs over the keys of
  \<^verbatim>\<open>self.sites\<close>, \<^verbatim>\<open>self.sites[site]\<close> being the record stored with the key; \<open>acc\<close> is
  the local dict \<^verbatim>\<open>sites\<close>.
\<close>

fun remove_nsfw_loop ::
  "(string \<Rightarrow> string) \<Rightarrow> string list \<Rightarrow> (string \<times> SiteInformation) list \<Rightarrow>
   (string \<times> SiteInformation) list \<Rightarrow> (string \<times> SiteInformation) list" where
  "remove_nsfw_loop casefold do_not_remove [] acc = acc"
| "remove_nsfw_loop casefold do_not_remove ((site, info) # rest) acc =
     (if truthy (is_nsfw info) \<and> casefold site \<notin> set do_not_remove
      then remove_nsfw_loop casefold do_not_remove rest acc
      else remove_nsfw_loop casefold do_not_remove rest (setitem acc site info))"

definition remove_nsfw_sites :: "(string \<Rightarrow> string) \<Rightarrow> string list \<Rightarrow> state \<Rightarrow> state" where
  "remove_nsfw_sites casefold do_not_remove st =
     st\<lparr>sites := remove_nsfw_loop casefold (map casefold do_not_remove) (sites st) []\<rparr>"

subsection \<open>\<^verbatim>\<open>__iter__\<close>, \<^verbatim>\<open>__len__\<close> and \<^verbatim>\<open>site_name_list\<close>\<close>

definition SitesInformation_iter :: "state \<Rightarrow> SiteInformation list" where
  "SitesInformation_iter st = map snd (sites st)"

definition SitesInformation_len :: "state \<Rightarrow> nat" where
  "SitesInformation_len st = length (sites st)"

text \<open>
  \<^verbatim>\<open>sorted(..., key=str.lower)\<close> is a stable sort on the keys, and so is \<^const>\<open>sort_key\<close>.
\<close>

definition site_name_list :: "(string \<Rightarrow> string) \<Rightarrow> state \<Rightarrow> string list" where
  "site_name_list lower st = sort_key lower (map name (SitesInformation_iter st))"

subsection \<open>\<^verbatim>\<open>detect_anomalies\<close>\<close>

definition url_pattern :: string where
  "url_pattern = ''^https?://'' @ [CHR 0x5C] @ ''S+'' @ [CHR 0x5C] @ ''.'' @ [CHR 0x5C] @ ''S+$''"

definition word_pattern :: string where
  "word_pattern = ''^'' @ [CHR 0x5C] @ ''w+$''"

definition patterns :: "(string \<times> string) list" where
  "patterns = [(''url'', url_pattern), (''username_claimed'', word_pattern)]"

definition anomaly_message :: "string \<Rightarrow> string \<Rightarrow> string" where
  "anomaly_message site_name key =
     ''Anomaly detected for site '' @ [CHR 0x27] @ site_name @ [CHR 0x27] @ '': Invalid ''
       @ [CHR 0x27] @ key @ [CHR 0x27]"

text \<open>
  \<open>re\<close> is \<^verbatim>\<open>re.match\<close> on a pattern and a string: whether it finds a match. Given
  anything but a string, \<^verbatim>\<open>re.match\<close> raises \<open>TypeError\<close>.
\<close>

fun re_match :: "(string \<Rightarrow> string \<Rightarrow> bool) \<Rightarrow> string \<Rightarrow> json \<Rightarrow> exn + bool" where
  "re_match re pattern (JStr s) = Inr (re pattern s)"
| "re_match re pattern _ = Inl TypeError"

text \<open>The inner loop, \<^verbatim>\<open>for key, pattern in patterns.items()\<close>, for one site.\<close>

fun check_patterns ::
  "(string \<Rightarrow> string \<Rightarrow> bool) \<Rightarrow> SiteInformation \<Rightarrow> (string \<times> string) list \<Rightarrow> string list \<Rightarrow>
   exn option \<times> string list" where
  "check_patterns re site [] out = (None, out)"
| "check_patterns re site ((key, pattern) # rest) out =
     (case map_of (information site) key of
        None \<Rightarrow> check_patterns re site rest out
      | Some v \<Rightarrow>
          (case re_match re pattern v of
             Inl e \<Rightarrow> (Some e, out)
           | Inr m \<Rightarrow>
               check_patterns re site rest
                 (if m then out else out @ [anomaly_message (name site) key])))"

text \<open>The outer loop, \<^verbatim>\<open>for site in self.sites.values()\<close>.\<close>

fun detect_loop ::
  "(string \<Rightarrow> string \<Rightarrow> bool) \<Rightarrow> SiteInformation list \<Rightarrow> state \<Rightarrow> exn option \<times> state" where
  "detect_loop re [] st = (None, st)"
| "detect_loop re (site # rest) st =
     (case check_patterns re site patterns (stdout st) of
        (Some e, out) \<Rightarrow> (Some e, st\<lparr>stdout := out\<rparr>)
      | (None, out) \<Rightarrow> detect_loop re rest (st\<lparr>stdout := out\<rparr>))"

definition detect_anomalies :: "(string \<Rightarrow> string \<Rightarrow> bool) \<Rightarrow> state \<Rightarrow> exn option \<times> state" where
  "detect_anomalies re st = detect_loop re (map snd (sites st)) st"


section \<open>Notions used in the statements\<close>

text \<open>
  The invariant of a catalogue: the keys of \<^verbatim>\<open>self.sites\<close> are pairwise different, as
  in every dict, and each record is stored under its own name.
\<close>

definition catalog_inv :: "state \<Rightarrow> bool" where
  "catalog_inv st =
     (distinct (map fst (sites st)) \<and> list_all (\<lambda>e. name (snd e) = fst e) (sites st))"

text \<open>The entries that the loop of \<^const>\<open>remove_nsfw_loop\<close> copies to the new dict.\<close>

definition kept :: "(string \<Rightarrow> string) \<Rightarrow> string list \<Rightarrow> string \<times> SiteInformation \<Rightarrow> bool" where
  "kept casefold do_not_remove e =
     (\<not> (truthy (is_nsfw (snd e)) \<and> casefold (fst e) \<notin> set do_not_remove))"

text \<open>
  The three kinds of raw entry: not a mapping; a mapping that lacks a required field;
  a mapping that has all three.
\<close>

fun is_mapping :: "json \<Rightarrow> bool" where
  "is_mapping (JDict d) = True"
| "is_mapping _ = False"

definition required_fields :: "string list" where
  "required_fields = [''urlMain'', ''url'', ''username_claimed'']"

fun missing_fields :: "json \<Rightarrow> string list" where
  "missing_fields (JDict d) = filter (\<lambda>k. map_of d k = None) required_fields"
| "missing_fields _ = []"

definition valid_entry :: "json \<Rightarrow> bool" where
  "valid_entry e = (is_mapping e \<and> missing_fields e = [])"

definition lacks_field :: "json \<Rightarrow> bool" where
  "lacks_field e = (missing_fields e \<noteq> [])"

text \<open>
  A rule of \<^const>\<open>patterns\<close> can be applied to a site when the value it reads, if
  there is one, is a string.
\<close>

fun is_str :: "json \<Rightarrow> bool" where
  "is_str (JStr s) = True"
| "is_str _ = False"

definition rule_applies :: "SiteInformation \<Rightarrow> string \<times> string \<Rightarrow> bool" where
  "rule_applies site kp =
     (case map_of (information site) (fst kp) of None \<Rightarrow> True | Some v \<Rightarrow> is_str v)"

definition string_fields :: "state \<Rightarrow> bool" where
  "string_fields st = list_all (\<lambda>e. list_all (rule_applies (snd e)) patterns) (sites st)"

text \<open>What was printed between the state \<open>st\<close> and the later state \<open>st'\<close>.\<close>

definition emitted :: "state \<Rightarrow> state \<Rightarrow> string list" where
  "emitted st st' = drop (length (stdout st)) (stdout st')"

text \<open>The lines one rule prints for one site when the value it reads is a string.\<close>

definition rule_lines ::
  "(string \<Rightarrow> string \<Rightarrow> bool) \<Rightarrow> SiteInformation \<Rightarrow> string \<times> string \<Rightarrow> string list" where
  "rule_lines re site kp =
     (case map_of (information site) (fst kp) of
        Some (JStr s) \<Rightarrow>
          if re (snd kp) s then [] else [anomaly_message (name site) (fst kp)]
      | _ \<Rightarrow> [])"


section \<open>A runtime and a data file to run the model on\<close>

text \<open>
  On a string of ASCII characters, \<^verbatim>\<open>str.lower\<close> and \<^verbatim>\<open>str.casefold\<close> both replace
  the letters A to Z by a to z and keep every other character.
\<close>

definition ascii_lower_char :: "char \<Rightarrow> char" where
  "ascii_lower_char c =
     (case map_of (zip ''ABCDEFGHIJKLMNOPQRSTUVWXYZ'' ''abcdefghijklmnopqrstuvwxyz'') c of
        None \<Rightarrow> c
      | Some l \<Rightarrow> l)"

definition ascii_lower :: "string \<Rightarrow> string" where
  "ascii_lower s = map ascii_lower_char s"

text \<open>
  \<^verbatim>\<open>re.match\<close> for the two patterns of \<^const>\<open>patterns\<close>, on strings of ASCII characters.
  \<^verbatim>\<open>\S\<close> is any character but the white space characters (tab, line feed, vertical tab,
  form feed, carriage return, the separators 0x1C to 0x1F and the space); \<^verbatim>\<open>\w\<close> is a
  letter, a digit or the underscore; \<^verbatim>\<open>$\<close> matches at the end of the string and before
  a line feed that ends the string.
\<close>

definition ascii_space :: "char \<Rightarrow> bool" where
  "ascii_space c =
     (c \<in> set [CHR 0x09, CHR 0x0A, CHR 0x0B, CHR 0x0C, CHR 0x0D,
                CHR 0x1C, CHR 0x1D, CHR 0x1E, CHR 0x1F, CHR 0x20])"

definition ascii_word :: "char \<Rightarrow> bool" where
  "ascii_word c =
     (c \<in> set ''abcdefghijklmnopqrstuvwxyzABCDEFGHIJKLMNOPQRSTUVWXYZ0123456789_'')"

definition before_dollar :: "string \<Rightarrow> string" where
  "before_dollar s = (if s \<noteq> [] \<and> last s = CHR 0x0A then butlast s else s)"

definition url_shape :: "string \<Rightarrow> bool" where
  "url_shape s =
     (let t = before_dollar s;
          body = (if startswith t ''https://'' then drop 8 t else drop 7 t)
      in (startswith t ''https://'' \<or> startswith t ''http://'')
         \<and> list_all (\<lambda>c. \<not> ascii_space c) body
         \<and> CHR ''.'' \<in> set (butlast (tl body)))"

definition word_shape :: "string \<Rightarrow> bool" where
  "word_shape s = (before_dollar s \<noteq> [] \<and> list_all ascii_word (before_dollar s))"

definition re_ascii :: "string \<Rightarrow> string \<Rightarrow> bool" where
  "re_ascii pattern s =
     (if pattern = url_pattern then url_shape s
      else if pattern = word_pattern then word_shape s
      else False)"

text \<open>A data file with three well-formed entries and one that is not a mapping.\<close>

definition entry_fields ::
  "json \<Rightarrow> json \<Rightarrow> json \<Rightarrow> (string \<times> json) list \<Rightarrow> (string \<times> json) list" where
  "entry_fields url_main url claimed extra =
     [(''urlMain'', url_main), (''url'', url), (''username_claimed'', claimed)] @ extra"

definition demo_data :: "(string \<times> json) list" where
  "demo_data =
     [(''Zulu'', JDict (entry_fields (JStr ''https://zulu.example'')
                   (JStr ''https://zulu.example/{}'') (JStr ''admin'') [])),
      (''x'', JDict (entry_fields (JStr ''https://x.example'') (JStr ''not a url'')
                (JStr ''bob'') [(''isNSFW'', JBool True)])),
      (''Broken'', JList []),
      (''alpha'', JDict (entry_fields (JStr ''https://alpha.example'')
                    (JStr ''https://alpha.example/u/{}'') (JStr ''eve'')
                    [(''isNSFW'', JBool True), (''description'', JStr ''a forum'')]))]"

definition demo_token :: string where
  "demo_token = ''Drmhze6EPcv0fN''"

definition demo_catalog :: state where
  "demo_catalog = snd (initialize_sites demo_token demo_data empty_state)"

definition demo_site_x :: SiteInformation where
  "demo_site_x =
     SiteInformation_init demo_token ''x'' (JStr ''https://x.example'') (JStr ''not a url'')
       (JStr ''bob'')
       (entry_fields (JStr ''https://x.example'') (JStr ''not a url'') (JStr ''bob'')
          [(''isNSFW'', JBool True)])
       (JBool True) None"

text \<open>A data file whose second entry has no \<^verbatim>\<open>url\<close> and no \<^verbatim>\<open>username_claimed\<close>.\<close>

definition incomplete_data :: "(string \<times> json) list" where
  "incomplete_data =
     [(''SiteA'', JDict (entry_fields (JStr ''https://a.com'') (JStr ''https://a.com/{}'')
                    (JStr ''admin'') [])),
      (''SiteB'', JDict [(''urlMain'', JStr ''https://b.com'')]),
      (''SiteC'', JNull)]"

text \<open>A data file whose only entry has a home URL that is no URL.\<close>

definition bad_home_data :: "(string \<times> json) list" where
  "bad_home_data =
     [(''SiteA'', JDict (entry_fields (JStr ''not a url'') (JStr ''https://a.com/{}'')
                    (JStr ''admin'') []))]"

text \<open>A data file whose only entry has a number where the URL format should be.\<close>

definition number_url_data :: "(string \<times> json) list" where
  "number_url_data =
     [(''SiteA'', JDict (entry_fields (JStr ''https://a.com'') (JInt 5) (JStr ''admin'') []))]"

text \<open>Two well-formed entries.\<close>

definition two_sites_data :: "(string \<times> json) list" where
  "two_sites_data =
     [(''SiteA'', JDict (entry_fields (JStr ''https://a.com'') (JStr ''https://a.com/{}'')
                    (JStr ''admin'') [])),
      (''SiteB'', JDict (entry_fields (JStr ''https://b.com'') (JStr ''https://b.com/{}'')
                    (JStr ''root'') []))]"

text \<open>
  A world in which the default URL serves \<^const>\<open>demo_data\<close> with a \<^verbatim>\<open>$schema\<close> key
  in front, nothing else can be fetched, and no file exists.
\<close>

definition demo_world :: env where
  "demo_world =
     \<lparr> http_get = (\<lambda>u. if u = default_data_file_path
                         then Fetched (JDict ((''$schema'', JStr ''data.schema.json'') # demo_data))
                         else RequestException ''unreachable''),
       open_json = (\<lambda>p. FileNotFound) \<rparr>"


text \<open>The record that \<^const>\<open>demo_catalog\<close> holds for \<^verbatim>\<open>Zulu\<close>.\<close>

definition demo_site_zulu :: SiteInformation where
  "demo_site_zulu =
     SiteInformation_init demo_token ''Zulu'' (JStr ''https://zulu.example'')
       (JStr ''https://zulu.example/{}'') (JStr ''admin'')
       (entry_fields (JStr ''https://zulu.example'') (JStr ''https://zulu.example/{}'')
          (JStr ''admin'') [])
       (JBool False) None"

text \<open>The catalogues built from the two data files with an odd entry.\<close>

definition bad_home_catalog :: state where
  "bad_home_catalog = snd (initialize_sites demo_token bad_home_data empty_state)"

definition number_url_catalog :: state where
  "number_url_catalog = snd (initialize_sites demo_token number_url_data empty_state)"


section \<open>Dicts\<close>

lemma setitem_fresh: "k \<notin> fst ` set d \<Longrightarrow> setitem d k v = d @ [(k, v)]"
  by (induction d) auto

lemma set_setitem: "set (setitem d k v) \<subseteq> insert (k, v) (set d)"
  by (induction d) (auto split: if_splits)

lemma keys_setitem:
  "map fst (setitem d k v) = (if k \<in> fst ` set d then map fst d else map fst d @ [k])"
  by (induction d) force+

lemma distinct_setitem: "distinct (map fst d) \<Longrightarrow> distinct (map fst (setitem d k v))"
  by (simp add: keys_setitem)


section \<open>The loop of \<^verbatim>\<open>remove_nsfw_sites\<close>\<close>

lemma remove_nsfw_loop_Cons:
  "remove_nsfw_loop cf dnr ((k, s) # xs) acc =
     (if kept cf dnr (k, s) then remove_nsfw_loop cf dnr xs (setitem acc k s)
      else remove_nsfw_loop cf dnr xs acc)"
  by (simp add: kept_def)

lemma remove_nsfw_loop_filter:
  "distinct (map fst xs) \<Longrightarrow> fst ` set acc \<inter> fst ` set xs = {} \<Longrightarrow>
   remove_nsfw_loop cf dnr xs acc = acc @ filter (kept cf dnr) xs"
proof (induction xs arbitrary: acc)
  case Nil
  then show ?case by simp
next
  case (Cons x xs)
  obtain k s where x: "x = (k, s)" by (cases x)
  from Cons.prems have fresh: "k \<notin> fst ` set acc" and d: "distinct (map fst xs)"
    and kx: "k \<notin> fst ` set xs" and disj: "fst ` set acc \<inter> fst ` set xs = {}"
    by (auto simp: x)
  show ?case
  proof (cases "kept cf dnr (k, s)")
    case True
    have "fst ` set (acc @ [(k, s)]) \<inter> fst ` set xs = {}"
      using disj kx by auto
    then have "remove_nsfw_loop cf dnr xs (acc @ [(k, s)]) = (acc @ [(k, s)]) @ filter (kept cf dnr) xs"
      using Cons.IH d by blast
    moreover have "setitem acc k s = acc @ [(k, s)]"
      using fresh by (rule setitem_fresh)
    ultimately show ?thesis using True
      by (simp add: x remove_nsfw_loop_Cons del: remove_nsfw_loop.simps)
  next
    case False
    then show ?thesis using Cons.IH [OF d disj]
      by (simp only: x remove_nsfw_loop_Cons if_False filter.simps)
  qed
qed

lemma remove_nsfw_loop_kept:
  "list_all (kept cf dnr) acc \<Longrightarrow> list_all (kept cf dnr) (remove_nsfw_loop cf dnr xs acc)"
proof (induction xs arbitrary: acc)
  case Nil
  then show ?case by simp
next
  case (Cons x xs)
  obtain k s where x: "x = (k, s)" by (cases x)
  show ?case
  proof (cases "kept cf dnr (k, s)")
    case True
    have "list_all (kept cf dnr) (setitem acc k s)"
      using set_setitem [of acc k s] True Cons.prems by (auto simp: list_all_iff)
    then show ?thesis using True Cons.IH
      by (simp only: x remove_nsfw_loop_Cons if_True)
  next
    case False
    then show ?thesis using Cons
      by (simp only: x remove_nsfw_loop_Cons if_False)
  qed
qed

lemma remove_nsfw_loop_distinct:
  "distinct (map fst acc) \<Longrightarrow> distinct (map fst (remove_nsfw_loop cf dnr xs acc))"
  by (induction xs arbitrary: acc) (auto simp: distinct_setitem)

lemma filter_all_kept: "list_all P xs \<Longrightarrow> filter P xs = xs"
  by (induction xs) auto

lemma names_are_keys:
  "catalog_inv st \<Longrightarrow> map name (SitesInformation_iter st) = map fst (sites st)"
  by (simp add: catalog_inv_def SitesInformation_iter_def list_all_iff)


section \<open>The loop of \<^verbatim>\<open>_initialize_sites\<close>\<close>

lemma new_site_not_mapping: "\<not> is_mapping e \<Longrightarrow> new_site tok n e = Inl TypeError"
  by (cases e) simp_all

lemma new_site_lacks_field:
  "lacks_field e \<Longrightarrow> new_site tok n e = Inl (KeyError (hd (missing_fields e)))"
  by (cases e) (auto simp: lacks_field_def required_fields_def split: option.splits if_splits)

lemma new_site_valid: "valid_entry e \<Longrightarrow> \<exists>s. new_site tok n e = Inr s"
  by (cases e) (auto simp: valid_entry_def required_fields_def split: option.splits if_splits)

lemma entry_kinds:
  "valid_entry e \<or> lacks_field e \<or> \<not> is_mapping e"
  "valid_entry e \<Longrightarrow> \<not> lacks_field e \<and> is_mapping e"
  "lacks_field e \<Longrightarrow> is_mapping e"
  by (cases e; auto simp: valid_entry_def lacks_field_def)+

lemma initialize_sites_no_abort:
  assumes "distinct (map fst data)"
    and "fst ` set (sites st) \<inter> fst ` set data = {}"
    and "find (\<lambda>ne. lacks_field (snd ne)) data = None"
  shows "\<exists>built. initialize_sites tok data st =
           (None, st\<lparr>sites := sites st @ built,
                     stdout := stdout st @ map (\<lambda>ne. skip_message (fst ne))
                                 (filter (\<lambda>ne. \<not> is_mapping (snd ne)) data)\<rparr>)
         \<and> map (\<lambda>ns. (fst ns, Inr (snd ns))) built =
             map (\<lambda>ne. (fst ne, new_site tok (fst ne) (snd ne)))
               (filter (\<lambda>ne. valid_entry (snd ne)) data)"
  using assms
proof (induction data arbitrary: st)
  case Nil
  then show ?case by simp
next
  case (Cons x data)
  obtain n e where x: "x = (n, e)" by (cases x)
  from Cons.prems have d: "distinct (map fst data)" and nf: "n \<notin> fst ` set data"
    and fresh: "n \<notin> fst ` set (sites st)"
    and disj: "fst ` set (sites st) \<inter> fst ` set data = {}"
    and ok: "\<not> lacks_field e" and rest: "find (\<lambda>ne. lacks_field (snd ne)) data = None"
    by (auto simp: x split: if_splits)
  show ?case
  proof (cases "is_mapping e")
    case True
    then have v: "valid_entry e" using ok entry_kinds(1) [of e] by blast
    then obtain s where s: "new_site tok n e = Inr s" using new_site_valid by blast
    let ?st = "st\<lparr>sites := setitem (sites st) n s\<rparr>"
    have si: "setitem (sites st) n s = sites st @ [(n, s)]"
      using fresh by (rule setitem_fresh)
    have "fst ` set (sites ?st) \<inter> fst ` set data = {}"
      using disj nf by (auto simp: si)
    from Cons.IH [OF d this rest] obtain built where
      b: "initialize_sites tok data ?st =
           (None, ?st\<lparr>sites := sites ?st @ built,
                     stdout := stdout ?st @ map (\<lambda>ne. skip_message (fst ne))
                                 (filter (\<lambda>ne. \<not> is_mapping (snd ne)) data)\<rparr>)"
      and m: "map (\<lambda>ns. (fst ns, Inr (snd ns))) built =
             map (\<lambda>ne. (fst ne, new_site tok (fst ne) (snd ne)))
               (filter (\<lambda>ne. valid_entry (snd ne)) data)"
      by blast
    have b': "initialize_sites tok data ?st =
           (None, st\<lparr>sites := sites st @ (n, s) # built,
                     stdout := stdout st @ map (\<lambda>ne. skip_message (fst ne))
                                 (filter (\<lambda>ne. \<not> is_mapping (snd ne)) data)\<rparr>)"
      using b by (simp add: si)
    show ?thesis
      by (rule exI [of _ "(n, s) # built"]) (simp add: x s b' m v True)
  next
    case False
    then have t: "new_site tok n e = Inl TypeError" by (rule new_site_not_mapping)
    have nv: "\<not> valid_entry e" using False by (simp add: valid_entry_def)
    let ?st = "st\<lparr>stdout := stdout st @ [skip_message n]\<rparr>"
    have "fst ` set (sites ?st) \<inter> fst ` set data = {}" using disj by simp
    from Cons.IH [OF d this rest] obtain built where
      b: "initialize_sites tok data ?st =
           (None, ?st\<lparr>sites := sites ?st @ built,
                     stdout := stdout ?st @ map (\<lambda>ne. skip_message (fst ne))
                                 (filter (\<lambda>ne. \<not> is_mapping (snd ne)) data)\<rparr>)"
      and m: "map (\<lambda>ns. (fst ns, Inr (snd ns))) built =
             map (\<lambda>ne. (fst ne, new_site tok (fst ne) (snd ne)))
               (filter (\<lambda>ne. valid_entry (snd ne)) data)"
      by blast
    have b': "initialize_sites tok data ?st =
           (None, st\<lparr>sites := sites st @ built,
                     stdout := stdout st @ skip_message n # map (\<lambda>ne. skip_message (fst ne))
                                 (filter (\<lambda>ne. \<not> is_mapping (snd ne)) data)\<rparr>)"
      using b by simp
    show ?thesis
      by (rule exI [of _ built]) (simp add: x t b' m nv False)
  qed
qed

lemma initialize_sites_abort:
  assumes "find (\<lambda>ne. lacks_field (snd ne)) data = Some ne"
  shows "fst (initialize_sites tok data st) =
           Some (ValueError (missing_attribute_message (hd (missing_fields (snd ne)))))"
  using assms
proof (induction data arbitrary: st)
  case Nil
  then show ?case by simp
next
  case (Cons x data)
  obtain n e where x: "x = (n, e)" by (cases x)
  show ?case
  proof (cases "lacks_field e")
    case True
    then have "ne = (n, e)" using Cons.prems by (simp add: x)
    then show ?thesis using True by (simp add: x new_site_lacks_field)
  next
    case False
    then have rest: "find (\<lambda>ne. lacks_field (snd ne)) data = Some ne"
      using Cons.prems by (simp add: x)
    show ?thesis
    proof (cases "is_mapping e")
      case True
      then have "valid_entry e" using False entry_kinds(1) [of e] by blast
      then obtain s where "new_site tok n e = Inr s" using new_site_valid by blast
      then show ?thesis using Cons.IH [OF rest] by (simp add: x)
    next
      case False
      then have "new_site tok n e = Inl TypeError" by (rule new_site_not_mapping)
      then show ?thesis using Cons.IH [OF rest] by (simp add: x)
    qed
  qed
qed

lemma initialize_sites_invariant:
  assumes "list_all Q (sites st)"
    and "\<And>n e s. (n, e) \<in> set data \<Longrightarrow> new_site tok n e = Inr s \<Longrightarrow> Q (n, s)"
  shows "list_all Q (sites (snd (initialize_sites tok data st)))"
  using assms
proof (induction data arbitrary: st)
  case Nil
  then show ?case by simp
next
  case (Cons x data)
  obtain n e where x: "x = (n, e)" by (cases x)
  have step: "\<And>n e s. (n, e) \<in> set data \<Longrightarrow> new_site tok n e = Inr s \<Longrightarrow> Q (n, s)"
    by (metis Cons.prems(2) list.set_intros(2))
  show ?case
  proof (cases "new_site tok n e")
    case (Inr s)
    have "Q (n, s)" using Cons.prems(2) [of n e s] Inr by (simp add: x)
    then have "list_all Q (setitem (sites st) n s)"
      using set_setitem [of "sites st" n s] Cons.prems(1) by (auto simp: list_all_iff)
    then have "list_all Q (sites (snd (initialize_sites tok data (st\<lparr>sites := setitem (sites st) n s\<rparr>))))"
      using Cons.IH [OF _ step] by simp
    then show ?thesis by (simp add: x Inr)
  next
    case (Inl err)
    have "list_all Q (sites (snd (initialize_sites tok data (st\<lparr>stdout := stdout st @ [skip_message n]\<rparr>))))"
      using Cons.IH [OF _ step] Cons.prems(1) by simp
    then show ?thesis using Cons.prems(1) by (cases err) (simp_all add: x Inl)
  qed
qed


lemma sites_empty_state: "sites empty_state = []"
  by (simp add: empty_state_def)

lemma new_site_fields:
  assumes "new_site tok n e = Inr s"
  shows "e = JDict (information s) \<and> name s = n
         \<and> username_unclaimed s = tok
         \<and> map_of (information s) ''urlMain'' = Some (url_home s)
         \<and> map_of (information s) ''url'' = Some (url_username_format s)
         \<and> map_of (information s) ''username_claimed'' = Some (username_claimed s)
         \<and> is_nsfw s = (case map_of (information s) ''isNSFW'' of
                          None \<Rightarrow> JBool False | Some v \<Rightarrow> v)"
  using assms
  by (cases e) (auto simp: SiteInformation_init_def split: option.splits)

lemma initialize_sites_io_log: "io_log (snd (initialize_sites tok data st)) = io_log st"
proof (induction data arbitrary: st)
  case Nil
  then show ?case by simp
next
  case (Cons x data)
  obtain n e where x: "x = (n, e)" by (cases x)
  show ?case
  proof (cases "new_site tok n e")
    case (Inr s)
    then show ?thesis using Cons.IH by (simp add: x)
  next
    case (Inl err)
    then show ?thesis using Cons.IH by (cases err) (simp_all add: x)
  qed
qed

lemma initialize_sites_distinct:
  "distinct (map fst (sites st)) \<Longrightarrow>
   distinct (map fst (sites (snd (initialize_sites tok data st))))"
proof (induction data arbitrary: st)
  case Nil
  then show ?case by simp
next
  case (Cons x data)
  obtain n e where x: "x = (n, e)" by (cases x)
  show ?case
  proof (cases "new_site tok n e")
    case (Inr s)
    have "distinct (map fst (sites (st\<lparr>sites := setitem (sites st) n s\<rparr>)))"
      using Cons.prems by (simp add: distinct_setitem)
    then show ?thesis using Cons.IH Inr by (simp add: x)
  next
    case (Inl err)
    have "distinct (map fst (sites (st\<lparr>stdout := stdout st @ [skip_message n]\<rparr>)))"
      using Cons.prems by simp
    then show ?thesis using Cons.IH Cons.prems Inl by (cases err) (simp_all add: x)
  qed
qed

lemma initialize_sites_catalog_inv:
  "catalog_inv (snd (initialize_sites tok data empty_state))"
proof -
  have "distinct (map fst (sites (snd (initialize_sites tok data empty_state))))"
    by (rule initialize_sites_distinct) (simp add: sites_empty_state)
  moreover have "list_all (\<lambda>e. name (snd e) = fst e)
                   (sites (snd (initialize_sites tok data empty_state)))"
  proof (rule initialize_sites_invariant)
    show "list_all (\<lambda>e. name (snd e) = fst e) (sites empty_state)"
      by (simp add: sites_empty_state)
  next
    fix n e s assume "new_site tok n e = Inr s"
    then show "name (snd (n, s)) = fst (n, s)" using new_site_fields by fastforce
  qed
  ultimately show ?thesis by (simp add: catalog_inv_def)
qed

lemma remove_nsfw_sites_catalog_inv:
  assumes "catalog_inv st"
  shows "catalog_inv (remove_nsfw_sites cf keep st)"
proof -
  from assms have d: "distinct (map fst (sites st))"
    and nm: "list_all (\<lambda>e. name (snd e) = fst e) (sites st)"
    by (simp_all add: catalog_inv_def)
  have "remove_nsfw_loop cf (map cf keep) (sites st) [] =
        [] @ filter (kept cf (map cf keep)) (sites st)"
    by (rule remove_nsfw_loop_filter [OF d]) simp
  then have "sites (remove_nsfw_sites cf keep st) = filter (kept cf (map cf keep)) (sites st)"
    by (simp add: remove_nsfw_sites_def)
  then show ?thesis using d nm by (simp add: catalog_inv_def distinct_map_filter list_all_iff)
qed


section \<open>The loops of \<^verbatim>\<open>detect_anomalies\<close>\<close>

lemma check_patterns_strings:
  "list_all (rule_applies site) ps \<Longrightarrow>
   check_patterns re site ps out = (None, out @ concat (map (rule_lines re site) ps))"
proof (induction ps arbitrary: out)
  case Nil
  then show ?case by simp
next
  case (Cons kp ps)
  obtain key pattern where kp: "kp = (key, pattern)" by (cases kp)
  from Cons.prems have here: "rule_applies site (key, pattern)"
    and rest: "list_all (rule_applies site) ps"
    by (simp_all add: kp)
  show ?case
  proof (cases "map_of (information site) key")
    case None
    then show ?thesis using Cons.IH [OF rest] by (simp add: kp rule_lines_def)
  next
    case (Some v)
    then obtain s where v: "v = JStr s"
      using here by (cases v) (simp_all add: rule_applies_def)
    show ?thesis using Cons.IH [OF rest] by (simp add: kp rule_lines_def Some v)
  qed
qed

lemma check_patterns_raises:
  "\<not> list_all (rule_applies site) ps \<Longrightarrow> fst (check_patterns re site ps out) = Some TypeError"
proof (induction ps arbitrary: out)
  case Nil
  then show ?case by simp
next
  case (Cons kp ps)
  obtain key pattern where kp: "kp = (key, pattern)" by (cases kp)
  show ?case
  proof (cases "map_of (information site) key")
    case None
    then have "rule_applies site (key, pattern)" by (simp add: rule_applies_def)
    then have "\<not> list_all (rule_applies site) ps"
      using Cons.prems by (simp add: kp)
    then show ?thesis using Cons.IH None by (simp add: kp)
  next
    case (Some v)
    show ?thesis
    proof (cases "is_str v")
      case True
      then obtain s where v: "v = JStr s" by (cases v) simp_all
      have "rule_applies site (key, pattern)" by (simp add: rule_applies_def Some v)
      then have "\<not> list_all (rule_applies site) ps"
        using Cons.prems by (simp add: kp)
      then show ?thesis using Cons.IH by (simp add: kp Some v)
    next
      case False
      then have "re_match re pattern v = Inl TypeError" by (cases v) simp_all
      then show ?thesis by (simp add: kp Some)
    qed
  qed
qed

lemma detect_loop_sites: "sites (snd (detect_loop re xs st)) = sites st"
  by (induction xs arbitrary: st) (auto split: prod.splits option.splits)

lemma detect_loop_io_log: "io_log (snd (detect_loop re xs st)) = io_log st"
  by (induction xs arbitrary: st) (auto split: prod.splits option.splits)

lemma detect_loop_strings:
  "list_all (\<lambda>site. list_all (rule_applies site) patterns) xs \<Longrightarrow>
   detect_loop re xs st =
     (None, st\<lparr>stdout := stdout st @
                concat (map (\<lambda>site. concat (map (rule_lines re site) patterns)) xs)\<rparr>)"
proof (induction xs arbitrary: st)
  case Nil
  then show ?case by simp
next
  case (Cons site xs)
  then have here: "list_all (rule_applies site) patterns"
    and rest: "list_all (\<lambda>site. list_all (rule_applies site) patterns) xs"
    by simp_all
  show ?case
    using Cons.IH [OF rest] by (simp add: check_patterns_strings [OF here])
qed

lemma detect_loop_raises:
  "\<not> list_all (\<lambda>site. list_all (rule_applies site) patterns) xs \<Longrightarrow>
   fst (detect_loop re xs st) = Some TypeError"
proof (induction xs arbitrary: st)
  case Nil
  then show ?case by simp
next
  case (Cons site xs)
  show ?case
  proof (cases "list_all (rule_applies site) patterns")
    case True
    then have "\<not> list_all (\<lambda>site. list_all (rule_applies site) patterns) xs"
      using Cons.prems by simp
    then show ?thesis using Cons.IH by (simp add: check_patterns_strings [OF True])
  next
    case False
    obtain r out where c: "check_patterns re site patterns (stdout st) = (r, out)"
      by (cases "check_patterns re site patterns (stdout st)")
    then have "r = Some TypeError"
      using check_patterns_raises [OF False, of re "stdout st"] by simp
    then show ?thesis by (simp add: c)
  qed
qed

lemma string_fields_iter:
  "string_fields st = list_all (\<lambda>site. list_all (rule_applies site) patterns) (map snd (sites st))"
  by (simp add: string_fields_def list_all_iff)

lemma detect_anomalies_raises_iff:
  "(fst (detect_anomalies re st) = None) = string_fields st"
proof (cases "string_fields st")
  case True
  then show ?thesis
    by (simp add: detect_anomalies_def detect_loop_strings string_fields_iter)
next
  case False
  then show ?thesis
    by (simp add: detect_anomalies_def detect_loop_raises string_fields_iter)
qed

lemma detect_anomalies_emitted:
  "string_fields st \<Longrightarrow>
   emitted st (snd (detect_anomalies re st)) =
     concat (map (\<lambda>site. concat (map (rule_lines re site) patterns)) (map snd (sites st)))"
  by (simp add: detect_anomalies_def detect_loop_strings string_fields_iter emitted_def)

lemma anomaly_message_inj:
  assumes "anomaly_message n k = anomaly_message n' ''url''"
    and "k = ''url'' \<or> k = ''username_claimed''"
  shows "n = n' \<and> k = ''url''"
proof (cases "k = ''url''")
  case True
  then show ?thesis using assms(1) by (simp add: anomaly_message_def)
next
  case False
  then have k: "k = ''username_claimed''" using assms(2) by simp
  have "rev (anomaly_message n k) ! 1 = rev (anomaly_message n' ''url'') ! 1"
    using assms(1) by simp
  then show ?thesis by (simp add: anomaly_message_def k)
qed


lemma detect_anomalies_catalog_inv:
  "catalog_inv st \<Longrightarrow> catalog_inv (snd (detect_anomalies re st))"
  by (simp add: catalog_inv_def detect_anomalies_def detect_loop_sites)


section \<open>The catalogue built from the data file of the examples\<close>

lemmas demo_defs =
  demo_catalog_def demo_data_def entry_fields_def empty_state_def SiteInformation_init_def

lemmas re_ascii_defs =
  re_ascii_def url_pattern_def word_pattern_def url_shape_def word_shape_def
  before_dollar_def startswith_def ascii_space_def ascii_word_def

lemma demo_catalog_keys: "map fst (sites demo_catalog) = [''Zulu'', ''x'', ''alpha'']"
  by (simp add: demo_defs)

lemma demo_catalog_inv: "catalog_inv demo_catalog"
  by (simp add: catalog_inv_def demo_defs)

lemma demo_catalog_strings: "string_fields demo_catalog"
  by (simp add: string_fields_def rule_applies_def patterns_def demo_defs)

lemma demo_site_x_built: "(''x'', demo_site_x) \<in> set (sites demo_catalog)"
  by (simp add: demo_site_x_def demo_defs)

lemma demo_data_distinct: "distinct (map fst demo_data)"
  by (simp add: demo_data_def)

lemma demo_site_zulu_built: "(''Zulu'', demo_site_zulu) \<in> set (sites demo_catalog)"
  by (simp add: demo_site_zulu_def demo_defs)

lemma demo_site_x_fields:
  "information demo_site_x =
     entry_fields (JStr ''https://x.example'') (JStr ''not a url'') (JStr ''bob'')
       [(''isNSFW'', JBool True)]"
  "url_username_format demo_site_x = JStr ''not a url''"
  "is_nsfw demo_site_x = JBool True"
  by (simp_all add: demo_site_x_def SiteInformation_init_def)

lemma demo_site_urls:
  "map_of (information demo_site_x) ''url'' = Some (JStr ''not a url'')"
  "map_of (information demo_site_zulu) ''url'' = Some (JStr ''https://zulu.example/{}'')"
  by (simp_all add: demo_site_x_def demo_site_zulu_def SiteInformation_init_def entry_fields_def)

lemma re_ascii_examples:
  "\<not> re_ascii url_pattern ''not a url''"
  "re_ascii url_pattern ''https://zulu.example/{}''"
  by (simp_all add: re_ascii_defs)

lemma default_path_lower: "ascii_lower default_data_file_path = default_data_file_path"
  by (simp add: default_data_file_path_def ascii_lower_def ascii_lower_char_def)

lemma default_path_shape:
  "endswith default_data_file_path ''.json''"
  "startswith default_data_file_path ''http''"
  by (simp_all add: default_data_file_path_def endswith_def startswith_def)

lemma demo_world_default:
  "http_get demo_world default_data_file_path =
     Fetched (JDict ((''$schema'', JStr ''data.schema.json'') # demo_data))"
  by (simp add: demo_world_def)

lemma demo_data_no_schema: "filter (\<lambda>kv. fst kv \<noteq> ''$schema'') demo_data = demo_data"
  by (simp add: demo_data_def)

lemma init_empty_source:
  "SitesInformation_init ascii_lower demo_world demo_token (Some '''') =
     initialize_sites demo_token demo_data
       (empty_state\<lparr>io_log := io_log empty_state @ [HttpGet default_data_file_path]\<rparr>)"
  by (simp add: SitesInformation_init_def default_path_lower default_path_shape load_url_def
      demo_world_default demo_data_no_schema)


section \<open>The claims\<close>

text \<open>
  Claim C1, as the code has it. The rule of \<^const>\<open>patterns\<close> for URLs reads the key
  \<^verbatim>\<open>url\<close> of the record's \<open>information\<close>, which is the URL format for user names, and
  not the home URL. On a catalogue whose records are stored under their names and whose
  checked values are strings: for a record whose \<^verbatim>\<open>url\<close> value is the string \<open>u\<close>,
  \<^verbatim>\<open>detect_anomalies\<close> prints the line naming that site and the field \<^verbatim>\<open>url\<close> exactly when
  \<open>u\<close> does not match the URL pattern.
\<close>

theorem detect_anomalies_url:
  assumes "catalog_inv st" and "string_fields st"
    and "(n, s) \<in> set (sites st)"
    and "map_of (information s) ''url'' = Some (JStr u)"
  shows "(anomaly_message n ''url'' \<in> set (emitted st (snd (detect_anomalies re st))))
           = (\<not> re url_pattern u)"
proof -
  from assms(1) have d: "distinct (map fst (sites st))"
    and nm: "\<And>e. e \<in> set (sites st) \<Longrightarrow> name (snd e) = fst e"
    by (auto simp: catalog_inv_def list_all_iff)
  have ns: "name s = n" using nm [OF assms(3)] by simp
  let ?line = "anomaly_message n ''url''"
  have own: "(?line \<in> set (concat (map (rule_lines re s) patterns))) = (\<not> re url_pattern u)"
  proof -
    have "?line \<notin> set (rule_lines re s (''username_claimed'', word_pattern))"
      using anomaly_message_inj [of "name s" "''username_claimed''" n]
      by (auto simp: rule_lines_def split: option.splits json.splits if_splits)
    then show ?thesis by (simp add: patterns_def rule_lines_def assms(4) ns)
  qed
  have other: "?line \<notin> set (concat (map (rule_lines re s') patterns))"
    if "(n', s') \<in> set (sites st)" "s' \<noteq> s" for n' s'
  proof
    assume "?line \<in> set (concat (map (rule_lines re s') patterns))"
    then obtain k where "anomaly_message (name s') k = ?line"
      and "k = ''url'' \<or> k = ''username_claimed''"
      by (auto simp: patterns_def rule_lines_def split: option.splits json.splits if_splits)
    then have "name s' = n" using anomaly_message_inj by blast
    then have "n' = n" using nm [OF that(1)] by simp
    then have "s' = s" using d that(1) assms(3) by (metis eq_key_imp_eq_value)
    then show False using that(2) by simp
  qed
  have "(?line \<in> set (emitted st (snd (detect_anomalies re st)))) =
        (\<exists>e \<in> set (sites st). ?line \<in> set (concat (map (rule_lines re (snd e)) patterns)))"
    by (simp add: detect_anomalies_emitted [OF assms(2)])
  also have "\<dots> = (?line \<in> set (concat (map (rule_lines re s) patterns)))"
    using assms(3) other by (metis prod.collapse snd_conv)
  finally show ?thesis using own by simp
qed

text \<open>
  On the example catalogue: the site \<^verbatim>\<open>x\<close>, whose \<^verbatim>\<open>url\<close> is \<^verbatim>\<open>not a url\<close>, is reported,
  and the site \<^verbatim>\<open>Zulu\<close>, whose \<^verbatim>\<open>url\<close> is well-formed, is not.
\<close>

theorem detect_anomalies_url_witness:
  "catalog_inv demo_catalog \<and> string_fields demo_catalog
   \<and> (''x'', demo_site_x) \<in> set (sites demo_catalog)
   \<and> map_of (information demo_site_x) ''url'' = Some (JStr ''not a url'')
   \<and> \<not> re_ascii url_pattern ''not a url''
   \<and> anomaly_message ''x'' ''url''
        \<in> set (emitted demo_catalog (snd (detect_anomalies re_ascii demo_catalog)))
   \<and> (''Zulu'', demo_site_zulu) \<in> set (sites demo_catalog)
   \<and> map_of (information demo_site_zulu) ''url'' = Some (JStr ''https://zulu.example/{}'')
   \<and> re_ascii url_pattern ''https://zulu.example/{}''
   \<and> anomaly_message ''Zulu'' ''url''
        \<notin> set (emitted demo_catalog (snd (detect_anomalies re_ascii demo_catalog)))"
  using detect_anomalies_url [OF demo_catalog_inv demo_catalog_strings demo_site_x_built
      demo_site_urls(1), of re_ascii]
    detect_anomalies_url [OF demo_catalog_inv demo_catalog_strings demo_site_zulu_built
      demo_site_urls(2), of re_ascii]
    demo_catalog_inv demo_catalog_strings demo_site_x_built demo_site_zulu_built
    demo_site_urls re_ascii_examples
  by blast

text \<open>
  The claim as the specification words it fails: a record whose home URL is
  \<^verbatim>\<open>not a url\<close> and whose \<^verbatim>\<open>url\<close> is well-formed gets no diagnostic at all.
\<close>

theorem home_url_not_checked:
  "\<not> re_ascii url_pattern ''not a url''
   \<and> map (\<lambda>e. (fst e, url_home (snd e))) (sites bad_home_catalog) =
       [(''SiteA'', JStr ''not a url'')]
   \<and> detect_anomalies re_ascii bad_home_catalog = (None, bad_home_catalog)"
proof -
  have "detect_anomalies re_ascii bad_home_catalog = (None, bad_home_catalog)"
    by (simp add: detect_anomalies_def patterns_def re_ascii_defs bad_home_catalog_def
        bad_home_data_def entry_fields_def empty_state_def SiteInformation_init_def)
  moreover have "map (\<lambda>e. (fst e, url_home (snd e))) (sites bad_home_catalog) =
       [(''SiteA'', JStr ''not a url'')]"
    by (simp add: bad_home_catalog_def bad_home_data_def entry_fields_def empty_state_def
        SiteInformation_init_def)
  ultimately show ?thesis using re_ascii_examples(1) by simp
qed

text \<open>
  Claim C2, on the code. The default of \<^verbatim>\<open>username_unclaimed\<close> is computed once, when
  the \<^verbatim>\<open>def\<close> statement runs, and \<^verbatim>\<open>_initialize_sites\<close> never passes the parameter: the
  two records built from a data file with two entries hold the same token, whatever
  token the one call of \<^verbatim>\<open>secrets.token_urlsafe(10)\<close> returned.
\<close>

theorem default_token_shared:
  "map (\<lambda>e. username_unclaimed (snd e))
     (sites (snd (initialize_sites tok two_sites_data empty_state))) = [tok, tok]"
  by (simp add: two_sites_data_def entry_fields_def empty_state_def SiteInformation_init_def)

text \<open>
  Claim C3. For a data file with pairwise different site names: if some entry is a
  mapping that lacks a required field, \<^verbatim>\<open>_initialize_sites\<close> raises \<open>ValueError\<close> with
  the message that names the first missing field of the first such entry. Otherwise
  it raises nothing, the catalogue has as many entries as the data file has mappings
  with all three required fields, each of them is what the constructor made of that
  entry, in the order of the file, and one line was printed for each entry that is no
  mapping.
\<close>

theorem initialize_sites_size:
  assumes "distinct (map fst site_data)"
  shows "(case find (\<lambda>ne. lacks_field (snd ne)) site_data of
            Some ne \<Rightarrow>
              fst (initialize_sites tok site_data empty_state) =
                Some (ValueError (missing_attribute_message (hd (missing_fields (snd ne)))))
          | None \<Rightarrow>
              fst (initialize_sites tok site_data empty_state) = None
              \<and> SitesInformation_len (snd (initialize_sites tok site_data empty_state)) =
                  length (filter (\<lambda>ne. valid_entry (snd ne)) site_data)
              \<and> map (\<lambda>ns. (fst ns, Inr (snd ns)))
                    (sites (snd (initialize_sites tok site_data empty_state))) =
                  map (\<lambda>ne. (fst ne, new_site tok (fst ne) (snd ne)))
                    (filter (\<lambda>ne. valid_entry (snd ne)) site_data)
              \<and> stdout (snd (initialize_sites tok site_data empty_state)) =
                  map (\<lambda>ne. skip_message (fst ne))
                    (filter (\<lambda>ne. \<not> is_mapping (snd ne)) site_data))"
proof (cases "find (\<lambda>ne. lacks_field (snd ne)) site_data")
  case None
  have "fst ` set (sites empty_state) \<inter> fst ` set site_data = {}"
    by (simp add: empty_state_def)
  from initialize_sites_no_abort [OF assms this None, of tok] obtain built where
    b: "initialize_sites tok site_data empty_state =
           (None, empty_state\<lparr>sites := sites empty_state @ built,
                     stdout := stdout empty_state @ map (\<lambda>ne. skip_message (fst ne))
                                 (filter (\<lambda>ne. \<not> is_mapping (snd ne)) site_data)\<rparr>)"
    and m: "map (\<lambda>ns. (fst ns, Inr (snd ns))) built =
             map (\<lambda>ne. (fst ne, new_site tok (fst ne) (snd ne)))
               (filter (\<lambda>ne. valid_entry (snd ne)) site_data)"
    by blast
  have "length built = length (filter (\<lambda>ne. valid_entry (snd ne)) site_data)"
    using arg_cong [OF m, of length] by simp
  moreover have "sites empty_state = []" "stdout empty_state = []"
    by (simp_all add: empty_state_def)
  ultimately show ?thesis
    using None m by (simp add: b SitesInformation_len_def)
next
  case (Some ne)
  then show ?thesis by (simp add: initialize_sites_abort)
qed

text \<open>
  On the example data file (three well-formed entries and a list) and on a data file
  whose second entry has neither \<^verbatim>\<open>url\<close> nor \<^verbatim>\<open>username_claimed\<close>.
\<close>

theorem initialize_sites_size_witness:
  "distinct (map fst demo_data)
   \<and> fst (initialize_sites demo_token demo_data empty_state) = None
   \<and> SitesInformation_len (snd (initialize_sites demo_token demo_data empty_state)) = 3
   \<and> stdout (snd (initialize_sites demo_token demo_data empty_state)) = [skip_message ''Broken'']
   \<and> distinct (map fst incomplete_data)
   \<and> fst (initialize_sites demo_token incomplete_data empty_state) =
       Some (ValueError (missing_attribute_message ''url''))"
proof -
  have d2: "distinct (map fst incomplete_data)" by (simp add: incomplete_data_def)
  have f1: "find (\<lambda>ne. lacks_field (snd ne)) demo_data = None"
    by (simp add: demo_data_def entry_fields_def lacks_field_def required_fields_def)
  have f2: "find (\<lambda>ne. lacks_field (snd ne)) incomplete_data =
              Some (''SiteB'', JDict [(''urlMain'', JStr ''https://b.com'')])"
    by (simp add: incomplete_data_def entry_fields_def lacks_field_def required_fields_def)
  have v: "length (filter (\<lambda>ne. valid_entry (snd ne)) demo_data) = 3"
    by (simp add: demo_data_def entry_fields_def valid_entry_def required_fields_def)
  have k: "map (\<lambda>ne. skip_message (fst ne)) (filter (\<lambda>ne. \<not> is_mapping (snd ne)) demo_data) =
             [skip_message ''Broken'']"
    by (simp add: demo_data_def entry_fields_def)
  have m: "hd (missing_fields (JDict [(''urlMain'', JStr ''https://b.com'')])) = ''url''"
    by (simp add: required_fields_def)
  have a: "fst (initialize_sites demo_token demo_data empty_state) = None
   \<and> SitesInformation_len (snd (initialize_sites demo_token demo_data empty_state)) = 3
   \<and> stdout (snd (initialize_sites demo_token demo_data empty_state)) = [skip_message ''Broken'']"
    using initialize_sites_size [OF demo_data_distinct, of demo_token] by (simp add: f1 v k)
  have b: "fst (initialize_sites demo_token incomplete_data empty_state) =
       Some (ValueError (missing_attribute_message ''url''))"
    using initialize_sites_size [OF d2, of demo_token] by (simp add: f2 required_fields_def)
  show ?thesis using a b d2 demo_data_distinct by simp
qed

text \<open>
  Claim C4, as the code has it. On a catalogue in which every value that a rule of
  \<^const>\<open>patterns\<close> reads is a string, \<^verbatim>\<open>detect_anomalies\<close> raises nothing and leaves
  \<^verbatim>\<open>self.sites\<close> as it was.
\<close>

theorem detect_anomalies_no_raise:
  assumes "string_fields st"
  shows "fst (detect_anomalies re st) = None
         \<and> sites (snd (detect_anomalies re st)) = sites st"
  using assms by (simp add: detect_anomalies_raises_iff) (simp add: detect_anomalies_def detect_loop_sites)

theorem detect_anomalies_no_raise_witness:
  "string_fields demo_catalog
   \<and> fst (detect_anomalies re_ascii demo_catalog) = None
   \<and> sites (snd (detect_anomalies re_ascii demo_catalog)) = sites demo_catalog"
  using detect_anomalies_no_raise [OF demo_catalog_strings, of re_ascii] demo_catalog_strings
  by blast

text \<open>
  The claim as the specification words it fails: on a record whose \<^verbatim>\<open>url\<close> is the
  number 5, \<^verbatim>\<open>re.match\<close> raises \<open>TypeError\<close>, and nothing in \<^verbatim>\<open>detect_anomalies\<close>
  catches it.
\<close>

theorem detect_anomalies_raises_on_number:
  "map (\<lambda>e. (fst e, map_of (information (snd e)) ''url'')) (sites number_url_catalog) =
     [(''SiteA'', Some (JInt 5))]
   \<and> fst (detect_anomalies re_ascii number_url_catalog) = Some TypeError"
  by (simp add: detect_anomalies_def patterns_def number_url_catalog_def
      number_url_data_def entry_fields_def empty_state_def SiteInformation_init_def)

text \<open>
  Claim C5, as the code has it. For every source that is not the empty string and
  whose lower-cased form does not end in \<^verbatim>\<open>.json\<close>, \<^verbatim>\<open>__init__\<close> raises
  \<open>FileNotFoundError\<close> with the message about the file extension, and no file was opened
  and nothing fetched.
\<close>

theorem bad_extension_no_io:
  assumes "p \<noteq> []" and "\<not> endswith (lower p) ''.json''"
  shows "SitesInformation_init lower world tok (Some p) =
           (Some (FileNotFoundError (bad_extension_message p)), empty_state)
         \<and> io_log (snd (SitesInformation_init lower world tok (Some p))) = []"
  using assms by (simp add: SitesInformation_init_def empty_state_def)

theorem bad_extension_no_io_witness:
  "''data.csv'' \<noteq> [] \<and> \<not> endswith (ascii_lower ''data.csv'') ''.json''
   \<and> SitesInformation_init ascii_lower demo_world demo_token (Some ''data.csv'') =
       (Some (FileNotFoundError (bad_extension_message ''data.csv'')), empty_state)
   \<and> io_log (snd (SitesInformation_init ascii_lower demo_world demo_token (Some ''data.csv''))) = []"
proof -
  have a: "''data.csv'' \<noteq> []" by simp
  have b: "\<not> endswith (ascii_lower ''data.csv'') ''.json''"
    by (simp add: endswith_def ascii_lower_def ascii_lower_char_def)
  show ?thesis
    using bad_extension_no_io [where p = "''data.csv''" and lower = ascii_lower
        and world = demo_world and tok = demo_token, OF a b] a b
    by blast
qed

text \<open>
  The claim as the specification words it fails at the empty string, which does not
  end in \<^verbatim>\<open>.json\<close>: \<^verbatim>\<open>if not data_file_path\<close> replaces it by the default URL, which is
  fetched, and the catalogue is built.
\<close>

theorem empty_source_is_fetched:
  "\<not> endswith (ascii_lower '''') ''.json''
   \<and> fst (SitesInformation_init ascii_lower demo_world demo_token (Some '''')) = None
   \<and> io_log (snd (SitesInformation_init ascii_lower demo_world demo_token (Some ''''))) =
       [HttpGet default_data_file_path]"
proof -
  have "fst (initialize_sites demo_token demo_data
       (empty_state\<lparr>io_log := io_log empty_state @ [HttpGet default_data_file_path]\<rparr>)) = None"
    by (simp add: demo_data_def entry_fields_def)
  then show ?thesis
    by (simp add: init_empty_source initialize_sites_io_log)
      (simp add: endswith_def ascii_lower_def empty_state_def)
qed

text \<open>
  Claim C6. For every catalogue and every list of names to keep, \<^verbatim>\<open>remove_nsfw_sites\<close>
  applied twice with that list leaves the catalogue in the state that one application
  leaves it in.
\<close>

theorem remove_nsfw_sites_idempotent:
  "remove_nsfw_sites casefold keep (remove_nsfw_sites casefold keep st) =
   remove_nsfw_sites casefold keep st"
proof -
  let ?dnr = "map casefold keep"
  let ?r = "remove_nsfw_loop casefold ?dnr (sites st) []"
  have d: "distinct (map fst ?r)" by (rule remove_nsfw_loop_distinct) simp
  have k: "list_all (kept casefold ?dnr) ?r" by (rule remove_nsfw_loop_kept) simp
  have "remove_nsfw_loop casefold ?dnr ?r [] = [] @ filter (kept casefold ?dnr) ?r"
    by (rule remove_nsfw_loop_filter [OF d]) simp
  then have "remove_nsfw_loop casefold ?dnr ?r [] = ?r"
    using k by (simp add: filter_all_kept)
  then show ?thesis by (simp add: remove_nsfw_sites_def)
qed

text \<open>On the example catalogue, keeping \<^verbatim>\<open>X\<close>: the second application changes nothing.\<close>

theorem remove_nsfw_sites_idempotent_witness:
  "remove_nsfw_sites ascii_lower [''X'']
     (remove_nsfw_sites ascii_lower [''X''] demo_catalog) =
   remove_nsfw_sites ascii_lower [''X''] demo_catalog
   \<and> map fst (sites (remove_nsfw_sites ascii_lower [''X''] demo_catalog)) = [''Zulu'', ''x'']"
proof -
  have "map fst (sites (remove_nsfw_sites ascii_lower [''X''] demo_catalog)) = [''Zulu'', ''x'']"
    by (simp add: remove_nsfw_sites_def ascii_lower_def ascii_lower_char_def demo_defs)
  then show ?thesis
    using remove_nsfw_sites_idempotent [of ascii_lower "[''X'']" demo_catalog] by simp
qed

text \<open>
  Claim C7. On a catalogue whose records are stored under their names,
  \<^verbatim>\<open>remove_nsfw_sites\<close> removes exactly the records whose \<^verbatim>\<open>is_nsfw\<close> is true and whose
  case-folded name is not among the case-folded names to keep, and changes nothing else.
  In particular a record named \<^verbatim>\<open>x\<close> stays when the names to keep hold \<^verbatim>\<open>X\<close> (the two
  names having the same case-folded form), and a record whose \<^verbatim>\<open>is_nsfw\<close> is false
  always stays.
\<close>

theorem remove_nsfw_sites_exact:
  assumes "catalog_inv st"
  shows "remove_nsfw_sites casefold keep st =
           st\<lparr>sites := filter (\<lambda>e. \<not> (truthy (is_nsfw (snd e)) \<and>
                                     casefold (name (snd e)) \<notin> casefold ` set keep)) (sites st)\<rparr>
         \<and> (\<forall>s. (''x'', s) \<in> set (sites st) \<and> ''X'' \<in> set keep \<and> casefold ''X'' = casefold ''x''
                \<longrightarrow> (''x'', s) \<in> set (sites (remove_nsfw_sites casefold keep st)))
         \<and> (\<forall>e \<in> set (sites st). \<not> truthy (is_nsfw (snd e))
                \<longrightarrow> e \<in> set (sites (remove_nsfw_sites casefold keep st)))"
proof -
  let ?P = "\<lambda>e. \<not> (truthy (is_nsfw (snd e)) \<and> casefold (name (snd e)) \<notin> casefold ` set keep)"
  from assms have d: "distinct (map fst (sites st))"
    and nm: "\<And>e. e \<in> set (sites st) \<Longrightarrow> name (snd e) = fst e"
    by (auto simp: catalog_inv_def list_all_iff)
  have "remove_nsfw_loop casefold (map casefold keep) (sites st) [] =
        [] @ filter (kept casefold (map casefold keep)) (sites st)"
    by (rule remove_nsfw_loop_filter [OF d]) simp
  also have "filter (kept casefold (map casefold keep)) (sites st) = filter ?P (sites st)"
    by (rule filter_cong) (auto simp: kept_def nm)
  finally have eq: "remove_nsfw_sites casefold keep st = st\<lparr>sites := filter ?P (sites st)\<rparr>"
    by (simp add: remove_nsfw_sites_def)
  have x: "(''x'', s) \<in> set (sites (remove_nsfw_sites casefold keep st))"
    if "(''x'', s) \<in> set (sites st)" "''X'' \<in> set keep" "casefold ''X'' = casefold ''x''" for s
  proof -
    have "name s = ''x''" using nm [OF that(1)] by simp
    then have "casefold (name s) \<in> casefold ` set keep" using that(2,3) by (metis imageI)
    then show ?thesis using that(1) by (simp add: eq)
  qed
  have n: "e \<in> set (sites (remove_nsfw_sites casefold keep st))"
    if "e \<in> set (sites st)" "\<not> truthy (is_nsfw (snd e))" for e
    using that by (simp add: eq)
  show ?thesis using eq x n by blast
qed

text \<open>
  On the example catalogue, keeping \<^verbatim>\<open>X\<close>: the sensitive site \<^verbatim>\<open>x\<close> stays, the sensitive
  site \<^verbatim>\<open>alpha\<close> goes, and \<^verbatim>\<open>Zulu\<close>, which is not sensitive, stays.
\<close>

theorem remove_nsfw_sites_exact_witness:
  "catalog_inv demo_catalog
   \<and> ascii_lower ''X'' = ascii_lower ''x''
   \<and> (''x'', demo_site_x) \<in> set (sites (remove_nsfw_sites ascii_lower [''X''] demo_catalog))
   \<and> map fst (sites (remove_nsfw_sites ascii_lower [''X''] demo_catalog)) = [''Zulu'', ''x'']"
proof -
  have c: "ascii_lower ''X'' = ascii_lower ''x''"
    by (simp add: ascii_lower_def ascii_lower_char_def)
  have k: "''X'' \<in> set [''X'']" by simp
  have x: "(''x'', demo_site_x) \<in> set (sites (remove_nsfw_sites ascii_lower [''X''] demo_catalog))"
    using remove_nsfw_sites_exact [OF demo_catalog_inv, of ascii_lower "[''X'']"]
      demo_site_x_built c k
    by blast
  have "map fst (sites (remove_nsfw_sites ascii_lower [''X''] demo_catalog)) = [''Zulu'', ''x'']"
    by (simp add: remove_nsfw_sites_def ascii_lower_def ascii_lower_char_def demo_defs)
  then show ?thesis using demo_catalog_inv c x by simp
qed

text \<open>
  Claim C8. On a catalogue whose records are stored under their names,
  \<^verbatim>\<open>site_name_list\<close> returns exactly the names of the entries, as many as there are
  entries and none twice, in the order of their lower-cased forms.
\<close>

theorem site_name_list_sorted:
  assumes "catalog_inv st"
  shows "set (site_name_list lower st) = fst ` set (sites st)
         \<and> length (site_name_list lower st) = SitesInformation_len st
         \<and> distinct (site_name_list lower st)
         \<and> sorted (map lower (site_name_list lower st))"
proof -
  have eq: "site_name_list lower st = sort_key lower (map fst (sites st))"
    using assms by (simp add: site_name_list_def names_are_keys)
  have "distinct (map fst (sites st))" using assms by (simp add: catalog_inv_def)
  then show ?thesis by (simp add: eq SitesInformation_len_def)
qed

text \<open>
  On the example catalogue, whose keys are \<^verbatim>\<open>Zulu\<close>, \<^verbatim>\<open>x\<close>, \<^verbatim>\<open>alpha\<close> in this order.
\<close>

theorem site_name_list_sorted_witness:
  "catalog_inv demo_catalog
   \<and> site_name_list ascii_lower demo_catalog = [''alpha'', ''x'', ''Zulu'']
   \<and> set (site_name_list ascii_lower demo_catalog) = fst ` set (sites demo_catalog)
   \<and> sorted (map ascii_lower (site_name_list ascii_lower demo_catalog))"
proof -
  have "site_name_list ascii_lower demo_catalog = [''alpha'', ''x'', ''Zulu'']"
    by (simp add: site_name_list_def SitesInformation_iter_def ascii_lower_def
        ascii_lower_char_def demo_defs)
  then show ?thesis
    using site_name_list_sorted [OF demo_catalog_inv, of ascii_lower] demo_catalog_inv
    by simp
qed

text \<open>
  Claim C10. Every record that \<^verbatim>\<open>_initialize_sites\<close> puts into an empty catalogue has
  as its \<open>information\<close> the whole raw entry of the data file. So \<open>information\<close>
  holds \<^verbatim>\<open>urlMain\<close>, \<^verbatim>\<open>url\<close> and \<^verbatim>\<open>username_claimed\<close> with the values of the record's
  fields, \<^verbatim>\<open>is_nsfw\<close> is the entry's \<^verbatim>\<open>isNSFW\<close> when there is one, and the first rule of
  \<^verbatim>\<open>detect_anomalies\<close>, the one for \<^verbatim>\<open>url\<close>, is applied to the record's URL format for
  user names.
\<close>

theorem built_record_information:
  assumes "(n, s) \<in> set (sites (snd (initialize_sites tok site_data empty_state)))"
  shows "(n, JDict (information s)) \<in> set site_data
         \<and> name s = n
         \<and> map_of (information s) ''urlMain'' = Some (url_home s)
         \<and> map_of (information s) ''url'' = Some (url_username_format s)
         \<and> map_of (information s) ''username_claimed'' = Some (username_claimed s)
         \<and> is_nsfw s = (case map_of (information s) ''isNSFW'' of
                          None \<Rightarrow> JBool False | Some v \<Rightarrow> v)
         \<and> check_patterns re s (take 1 patterns) out =
             (case re_match re url_pattern (url_username_format s) of
                Inl e \<Rightarrow> (Some e, out)
              | Inr m \<Rightarrow> (None, if m then out else out @ [anomaly_message n ''url'']))"
proof -
  let ?Q = "\<lambda>ns. (fst ns, JDict (information (snd ns))) \<in> set site_data
         \<and> name (snd ns) = fst ns
         \<and> map_of (information (snd ns)) ''urlMain'' = Some (url_home (snd ns))
         \<and> map_of (information (snd ns)) ''url'' = Some (url_username_format (snd ns))
         \<and> map_of (information (snd ns)) ''username_claimed'' = Some (username_claimed (snd ns))
         \<and> is_nsfw (snd ns) = (case map_of (information (snd ns)) ''isNSFW'' of
                          None \<Rightarrow> JBool False | Some v \<Rightarrow> v)"
  have "list_all ?Q (sites (snd (initialize_sites tok site_data empty_state)))"
  proof (rule initialize_sites_invariant)
    show "list_all ?Q (sites empty_state)" by (simp add: sites_empty_state)
  next
    fix n e s assume "(n, e) \<in> set site_data" "new_site tok n e = Inr s"
    then show "?Q (n, s)" using new_site_fields [of tok n e s] by auto
  qed
  then have q: "?Q (n, s)" using assms by (auto simp: list_all_iff)
  then have "check_patterns re s (take 1 patterns) out =
             (case re_match re url_pattern (url_username_format s) of
                Inl e \<Rightarrow> (Some e, out)
              | Inr m \<Rightarrow> (None, if m then out else out @ [anomaly_message n ''url'']))"
    by (simp add: patterns_def split: sum.splits)
  then show ?thesis using q by simp
qed

theorem built_record_information_witness:
  "(''x'', demo_site_x) \<in> set (sites (snd (initialize_sites demo_token demo_data empty_state)))
   \<and> (''x'', JDict (information demo_site_x)) \<in> set demo_data
   \<and> map_of (information demo_site_x) ''url'' = Some (JStr ''not a url'')
   \<and> url_username_format demo_site_x = JStr ''not a url''
   \<and> check_patterns re_ascii demo_site_x (take 1 patterns) [] =
        (None, [anomaly_message ''x'' ''url''])"
proof -
  have b: "(''x'', demo_site_x) \<in> set (sites (snd (initialize_sites demo_token demo_data empty_state)))"
    using demo_site_x_built by (simp add: demo_catalog_def)
  have m: "\<not> re_ascii url_pattern ''not a url''"
    by (simp add: re_ascii_defs)
  show ?thesis
    using built_record_information [OF b, of re_ascii "[]"] b m
    by (simp add: demo_site_x_fields)
qed

end
